theory Spec2Isabelle
  imports Complex_Main "HOL-Library.Word" "HOL-Library.Signed_Division"
begin

unbundle bit_operations_syntax

section \<open>The hash engine\<close>

text \<open>
  The repository holds the same one-time-password code twice: a Go package
  (functions \<open>HMAC\<close>, \<open>HOTP\<close>, \<open>TOTP\<close>) and a JavaScript file \<open>otp.js\<close>
  (functions \<open>hmac\<close>, \<open>hotp\<close>, \<open>totp\<close>).  Both call a SHA-1 library that is not
  part of the repository (Go's \<open>crypto/sha1\<close>, a global \<open>sha1\<close> function in
  JavaScript).  The hash is therefore a parameter of every function below.

  Go's \<open>sha1.Sum\<close> has the result type \<open>[sha1.Size]byte\<close>, an array of exactly
  20 bytes.  The type \<open>digest\<close> is that array type; \<open>bytes_of\<close> is the slice
  \<open>sum[:]\<close> of such an array.  The JavaScript library is taken to return the 20
  bytes of a digest as 40 hexadecimal characters.

  Line numbers refer to the Go file (the unnamed source file) and to \<open>otp.js\<close>.
\<close>

type_synonym byte = "8 word"

definition Size :: nat where
  \<comment> \<open>\<open>sha1.Size\<close>\<close>
  "Size = 20"

definition BlockSize :: nat where
  \<comment> \<open>\<open>sha1.BlockSize\<close>\<close>
  "BlockSize = 64"

typedef digest = "{bs :: byte list. length bs = Size}"
  morphisms bytes_of Digest
  by (rule exI [of _ "replicate Size 0"]) simp

setup_lifting type_definition_digest

section \<open>The Go package\<close>

subsection \<open>HMAC\<close>

definition make :: "nat \<Rightarrow> byte list" where
  \<comment> \<open>\<open>make([]byte, n)\<close>: a fresh slice of \<open>n\<close> zero bytes\<close>
  "make n = replicate n 0"

definition HMAC_key :: "byte list \<Rightarrow> byte list" where
  \<comment> \<open>Go lines 35 to 42: the key after the length adjustment that opens \<open>HMAC\<close>\<close>
  "HMAC_key key =
     (if length key < BlockSize then key @ make (BlockSize - length key)
      else if length key > BlockSize then take BlockSize key
      else key)"

function HMAC_pads :: "byte list \<Rightarrow> byte list \<Rightarrow> byte list \<times> byte list" where
  \<comment> \<open>Go lines 50 to 55:
      \<open>for len(opad) < blocksize { opad = append(opad, 0x5C); ipad = append(ipad, 0x36) }\<close>\<close>
  "HMAC_pads opad ipad =
     (if length opad < BlockSize then HMAC_pads (opad @ [0x5C]) (ipad @ [0x36])
      else (opad, ipad))"
  by pat_completeness auto
termination
  by (relation "measure (\<lambda>(opad, ipad). BlockSize - length opad)") auto

declare HMAC_pads.simps [simp del]

function HMAC_xor ::
  "nat \<Rightarrow> byte list \<Rightarrow> byte list \<Rightarrow> byte list \<Rightarrow> byte list \<times> byte list \<Rightarrow> byte list \<times> byte list"
where
  \<comment> \<open>Go lines 64 to 67: the loop \<open>for i := 0; i < blocksize; i++\<close> that fills both
      XOR buffers\<close>
  "HMAC_xor i key opad ipad (key_xor_opad, key_xor_ipad) =
     (if i < BlockSize
      then HMAC_xor (i + 1) key opad ipad
             (key_xor_opad[i := key ! i XOR opad ! i], key_xor_ipad[i := key ! i XOR ipad ! i])
      else (key_xor_opad, key_xor_ipad))"
  by pat_completeness auto
termination
  by (relation "measure (\<lambda>(i, key, opad, ipad, bufs). BlockSize - i)") auto

declare HMAC_xor.simps [simp del]

definition HMAC :: "(byte list \<Rightarrow> digest) \<Rightarrow> byte list \<Rightarrow> byte list \<Rightarrow> byte list" where
  \<comment> \<open>Go lines 27 to 78; \<open>sum2\<close> is \<open>sha1.Sum(sum1[:])\<close>, as line 75 has it\<close>
  "HMAC sha1_Sum key message =
     (let key = HMAC_key key;
          (opad, ipad) = HMAC_pads [] [];
          (key_xor_opad, key_xor_ipad) =
             HMAC_xor 0 key opad ipad (make BlockSize, make BlockSize);
          sum1 = sha1_Sum (key_xor_ipad @ message);
          sum2 = sha1_Sum (bytes_of sum1)
      in bytes_of sum2)"

subsection \<open>HOTP\<close>

datatype go_panic = SliceBoundsOutOfRange

definition codeLen :: int where
  \<comment> \<open>Go line 98 \<open>var codeLen int = 6\<close>, and \<open>var codeLen = 6\<close> on line 86 of \<open>otp.js\<close>\<close>
  "codeLen = 6"

definition slice_to :: "byte list \<Rightarrow> int \<Rightarrow> go_panic + byte list" where
  \<comment> \<open>\<open>s[0:n]\<close> for a slice whose capacity is its length, as \<open>sum2[:]\<close> is: a run-time
      panic unless \<open>0 \<le> n \<le> cap(s)\<close>\<close>
  "slice_to s n =
     (if n < 0 \<or> int (length s) < n then Inl SliceBoundsOutOfRange
      else Inr (take (nat n) s))"

function HOTP_range :: "nat \<Rightarrow> byte list \<Rightarrow> byte list" where
  \<comment> \<open>Go lines 114 to 116: \<open>for i, b := range(code) { code[i] = b % 10 }\<close>\<close>
  "HOTP_range i code =
     (if i < length code then HOTP_range (i + 1) (code[i := (code ! i) mod 10])
      else code)"
  by pat_completeness auto
termination
  by (relation "measure (\<lambda>(i, code). length code - i)") auto

declare HOTP_range.simps [simp del]

definition HOTP_len ::
  "int \<Rightarrow> (byte list \<Rightarrow> digest) \<Rightarrow> byte list \<Rightarrow> byte list \<Rightarrow> go_panic + byte list"
where
  \<comment> \<open>Go lines 99 to 117: the body of \<open>HOTP\<close>, for a value \<open>n\<close> of its local variable
      \<open>codeLen\<close>\<close>
  "HOTP_len n sha1_Sum key counter =
     (let hmac = HMAC sha1_Sum key counter
      in case slice_to hmac n of
           Inl p \<Rightarrow> Inl p
         | Inr code \<Rightarrow> Inr (HOTP_range 0 code))"

definition HOTP :: "(byte list \<Rightarrow> digest) \<Rightarrow> byte list \<Rightarrow> byte list \<Rightarrow> go_panic + byte list" where
  "HOTP sha1_Sum key counter = HOTP_len codeLen sha1_Sum key counter"

subsection \<open>TOTP\<close>

function decimal :: "nat \<Rightarrow> nat list" where
  \<comment> \<open>the character codes of the decimal digits of a number, most significant first\<close>
  "decimal n = (if n < 10 then [48 + n] else decimal (n div 10) @ [48 + n mod 10])"
  by pat_completeness auto
termination
  by (relation "measure id") auto

declare decimal.simps [simp del]

definition decimal_int :: "int \<Rightarrow> nat list" where
  \<comment> \<open>the same for an integer: a minus sign (code 45) in front of a negative number\<close>
  "decimal_int t = (if t < 0 then 45 # decimal (nat (- t)) else decimal (nat t))"

definition FormatInt :: "int \<Rightarrow> byte list" where
  \<comment> \<open>\<open>[]byte(strconv.FormatInt(t, 10))\<close>\<close>
  "FormatInt t = map of_nat (decimal_int t)"

definition TOTP_counter :: "int \<Rightarrow> int" where
  \<comment> \<open>Go line 128, \<open>time.Now().Unix() / 30\<close> on \<open>int64\<close>: Go's integer division truncates
      towards zero\<close>
  "TOTP_counter now = now sdiv 30"

definition TOTP :: "(byte list \<Rightarrow> digest) \<Rightarrow> int \<Rightarrow> byte list \<Rightarrow> go_panic + byte list" where
  \<comment> \<open>Go lines 127 to 132; \<open>now\<close> is the reading \<open>time.Now().Unix()\<close> of the clock\<close>
  "TOTP sha1_Sum now key =
     (let t = TOTP_counter now;
          tstr = FormatInt t
      in HOTP sha1_Sum key tstr)"

section \<open>The JavaScript file\<close>

text \<open>
  A JavaScript string is a sequence of 16-bit code units: \<open>charCodeAt\<close> reads one,
  \<open>String.fromCharCode\<close> makes a one-unit string, \<open>+\<close> concatenates.
\<close>

type_synonym jschar = "16 word"
type_synonym jsstring = "jschar list"

definition blocksize :: nat where
  "blocksize = 64"

definition hmac_K :: "jsstring \<Rightarrow> jsstring" where
  \<comment> \<open>\<open>otp.js\<close> lines 25 to 30: the global \<open>K_\<close> that the first statement of \<open>hmac\<close>
      assigns\<close>
  "hmac_K key =
     (if length key < blocksize then key @ replicate (blocksize - length key) 0
      else if length key > blocksize then take blocksize key
      else key)"

datatype number = Num nat | NaN

datatype sha1_input = JString jsstring | JArray "number list"

text \<open>
  The library function \<open>sha1\<close> is called on a string and on an array of numbers and
  returns the digest as a string of hexadecimal digits.  Its digest is the parameter
  \<open>sha1_digest\<close>; the hexadecimal text is written out here, in lower case.
\<close>

definition hex_digit :: "nat \<Rightarrow> jschar" where
  "hex_digit d = of_nat (if d < 10 then 48 + d else 87 + d)"

definition hex_string :: "byte list \<Rightarrow> jsstring" where
  "hex_string bs = concat (map (\<lambda>b. [hex_digit (unat b div 16), hex_digit (unat b mod 16)]) bs)"

definition sha1 :: "(sha1_input \<Rightarrow> digest) \<Rightarrow> sha1_input \<Rightarrow> jsstring" where
  "sha1 sha1_digest x = hex_string (bytes_of (sha1_digest x))"

text \<open>
  \<open>parseInt(s, 16)\<close> reads the longest prefix of hexadecimal digits of \<open>s\<close> and is
  \<open>NaN\<close> when there is none.  (It also skips leading white space and accepts a sign
  and the prefix \<open>0x\<close>; a hexadecimal digest has none of these, and they are left out.)
\<close>

definition hex_value :: "jschar \<Rightarrow> nat option" where
  "hex_value c =
     (let n = unat c
      in if 48 \<le> n \<and> n \<le> 57 then Some (n - 48)
         else if 97 \<le> n \<and> n \<le> 102 then Some (n - 87)
         else if 65 \<le> n \<and> n \<le> 70 then Some (n - 55)
         else None)"

fun parse_hex :: "number \<Rightarrow> jsstring \<Rightarrow> number" where
  "parse_hex acc [] = acc"
| "parse_hex acc (c # cs) =
     (case hex_value c of
        None \<Rightarrow> acc
      | Some d \<Rightarrow> parse_hex (Num (16 * (case acc of Num n \<Rightarrow> n | NaN \<Rightarrow> 0) + d)) cs)"

definition parseInt16 :: "jsstring \<Rightarrow> number" where
  "parseInt16 s = parse_hex NaN s"

definition js :: "string \<Rightarrow> jsstring" where
  \<comment> \<open>a string literal\<close>
  "js s = map of_char s"

definition numbers :: "byte list \<Rightarrow> number list" where
  \<comment> \<open>bytes as JavaScript numbers\<close>
  "numbers bs = map (\<lambda>b. Num (unat b)) bs"

subsection \<open>hmac\<close>

function hmac_xor ::
  "nat \<Rightarrow> jsstring \<Rightarrow> jsstring \<Rightarrow> jsstring \<Rightarrow> jsstring \<times> jsstring \<Rightarrow> jsstring \<times> jsstring"
where
  \<comment> \<open>\<open>otp.js\<close> lines 39 to 45: the loop \<open>for (var i = 0; i < K_.length; ++i)\<close> that
      builds both XOR strings\<close>
  "hmac_xor i K opad ipad (K_xor_opad, K_xor_ipad) =
     (if i < length K
      then hmac_xor (i + 1) K opad ipad
             (K_xor_opad @ [K ! i XOR opad ! i], K_xor_ipad @ [K ! i XOR ipad ! i])
      else (K_xor_opad, K_xor_ipad))"
  by pat_completeness auto
termination
  by (relation "measure (\<lambda>(i, K, opad, ipad, strs). length K - i)") auto

declare hmac_xor.simps [simp del]

function hmac_bytes :: "nat \<Rightarrow> jsstring \<Rightarrow> number list \<Rightarrow> number list" where
  \<comment> \<open>\<open>otp.js\<close> lines 51 to 55 and again 60 to 64: the loop
      \<open>for (var i = 0; i < str.length; i += 2)\<close> over a hexadecimal string;
      \<open>str[i+1]\<close> past the end is \<open>undefined\<close>, which \<open>+\<close> turns into text\<close>
  "hmac_bytes i str bytes =
     (if i < length str
      then let byteStr = [str ! i] @ (if i + 1 < length str then [str ! (i + 1)] else js ''undefined'');
               byte = parseInt16 byteStr
           in hmac_bytes (i + 2) str (bytes @ [byte])
      else bytes)"
  by pat_completeness auto
termination
  by (relation "measure (\<lambda>(i, str, bytes). length str - i)") auto

declare hmac_bytes.simps [simp del]

definition hmac :: "(sha1_input \<Rightarrow> digest) \<Rightarrow> jsstring \<Rightarrow> jsstring \<Rightarrow> number list" where
  \<comment> \<open>\<open>otp.js\<close> lines 20 to 67; \<open>outerStr\<close> is \<open>sha1(innerBytes)\<close>, as line 57 has it\<close>
  "hmac sha1_digest key message =
     (let K = hmac_K key;
          opad = replicate blocksize 0x5C;
          ipad = replicate blocksize 0x36;
          (K_xor_opad, K_xor_ipad) = hmac_xor 0 K opad ipad ([], []);
          innerStr = sha1 sha1_digest (JString (K_xor_ipad @ message));
          innerBytes = hmac_bytes 0 innerStr [];
          outerStr = sha1 sha1_digest (JArray innerBytes);
          outerBytes = hmac_bytes 0 outerStr []
      in outerBytes)"

subsection \<open>hotp\<close>

definition slice0 :: "'a list \<Rightarrow> int \<Rightarrow> 'a list" where
  \<comment> \<open>\<open>a.slice(0, n)\<close>: a negative \<open>n\<close> counts from the end\<close>
  "slice0 a n = (if n < 0 then take (nat (int (length a) + n)) a else take (nat n) a)"

fun rem10 :: "number option \<Rightarrow> number" where
  \<comment> \<open>\<open>x % 10\<close> for an array element \<open>x\<close>; \<open>None\<close> is \<open>undefined\<close>, read past the end\<close>
  "rem10 (Some (Num n)) = Num (n mod 10)"
| "rem10 (Some NaN) = NaN"
| "rem10 None = NaN"

fun number_string :: "number \<Rightarrow> jsstring" where
  \<comment> \<open>the text that \<open>code += x\<close> appends for a number \<open>x\<close>\<close>
  "number_string (Num n) = map of_nat (decimal n)"
| "number_string NaN = js ''NaN''"

function hotp_loop :: "nat \<Rightarrow> int \<Rightarrow> number list \<Rightarrow> jsstring \<Rightarrow> jsstring" where
  \<comment> \<open>\<open>otp.js\<close> lines 91 to 93:
      \<open>for (var i = 0; i < codeLen; i++) { code += htop_value[i] % 10; }\<close>\<close>
  "hotp_loop i n htop_value code =
     (if int i < n
      then hotp_loop (i + 1) n htop_value
             (code @ number_string
                (rem10 (if i < length htop_value then Some (htop_value ! i) else None)))
      else code)"
  by pat_completeness auto
termination
  by (relation "measure (\<lambda>(i, n, htop_value, code). nat n - i)") auto

declare hotp_loop.simps [simp del]

definition hotp_len :: "int \<Rightarrow> (sha1_input \<Rightarrow> digest) \<Rightarrow> jsstring \<Rightarrow> jsstring \<Rightarrow> jsstring" where
  \<comment> \<open>\<open>otp.js\<close> lines 85 to 95: the body of \<open>hotp\<close>, for a value \<open>n\<close> of its local
      variable \<open>codeLen\<close>\<close>
  "hotp_len n sha1_digest key counter =
     (let h = hmac sha1_digest key counter;
          code = [];
          htop_value = slice0 h n
      in hotp_loop 0 n htop_value code)"

definition hotp :: "(sha1_input \<Rightarrow> digest) \<Rightarrow> jsstring \<Rightarrow> jsstring \<Rightarrow> jsstring" where
  "hotp sha1_digest key counter = hotp_len codeLen sha1_digest key counter"

definition hotp_call ::
  "(sha1_input \<Rightarrow> digest) \<Rightarrow> jsstring \<Rightarrow> jsstring \<Rightarrow> number list \<Rightarrow> jsstring"
where
  \<comment> \<open>a call \<open>hotp(key, counter, x, \<dots>)\<close> with more arguments than the two parameters of
      \<open>function(key, counter)\<close> on line 84 of \<open>otp.js\<close>: JavaScript binds the first two,
      and the body never reads \<open>arguments\<close>, so the surplus is dropped\<close>
  "hotp_call sha1_digest key counter surplus = hotp sha1_digest key counter"

subsection \<open>totp\<close>

definition totp_TC :: "int \<Rightarrow> int" where
  \<comment> \<open>\<open>otp.js\<close> line 107: \<open>Math.floor(ms / 1000 / 30)\<close> for the clock reading \<open>ms = new Date().getTime()\<close>,
      a whole number of milliseconds.  The two divisions are taken exactly; rounded to
      double precision they have the same floor for every reading below \<open>10^15\<close> in size\<close>
  "totp_TC ms = \<lfloor>real_of_int ms / 1000 / 30\<rfloor>"

definition toString :: "int \<Rightarrow> jsstring" where
  \<comment> \<open>\<open>TC.toString()\<close> of a whole number below \<open>10^21\<close> in size\<close>
  "toString n = map of_nat (decimal_int n)"

definition totp :: "(sha1_input \<Rightarrow> digest) \<Rightarrow> int \<Rightarrow> jsstring \<Rightarrow> jsstring" where
  \<comment> \<open>\<open>otp.js\<close> lines 106 to 109\<close>
  "totp sha1_digest ms key =
     (let TC = totp_TC ms
      in hotp sha1_digest key (toString TC))"


section \<open>What the specification says HMAC computes\<close>

text \<open>
  The specification's algorithm for HMAC, written from its words (steps 3 to 6 of its
  section 4.1) over the normalized key \<open>K'\<close> that the code computes:
  \<open>inner = Hash((K' XOR ipad) || message)\<close>, \<open>outer = Hash((K' XOR opad) || inner)\<close>.
  The comments at the head of both source files give the same formula.
\<close>

definition two_pass_HMAC :: "(byte list \<Rightarrow> digest) \<Rightarrow> byte list \<Rightarrow> byte list \<Rightarrow> byte list" where
  "two_pass_HMAC Hash key message =
     (let K' = HMAC_key key;
          ipad = replicate BlockSize 0x36;
          opad = replicate BlockSize 0x5C;
          inner = bytes_of (Hash (map2 (XOR) K' ipad @ message));
          outer = bytes_of (Hash (map2 (XOR) K' opad @ inner))
      in outer)"

section \<open>SHA-1, the hash both sources are built on\<close>

text \<open>
  A model of the library function, after FIPS 180-4, to run the code above on concrete
  keys and messages.  The 32-bit words of the standard are numbers below \<open>2^32\<close> with
  the wrap-around written out.
\<close>

type_synonym sha1_state = "nat \<times> nat \<times> nat \<times> nat \<times> nat"

definition add32 :: "nat \<Rightarrow> nat \<Rightarrow> nat" where
  "add32 a b = (a + b) mod 4294967296"

definition rotl :: "nat \<Rightarrow> nat \<Rightarrow> nat" where
  "rotl n w = (w * 2 ^ n) mod 4294967296 + w div 2 ^ (32 - n)"

definition not32 :: "nat \<Rightarrow> nat" where
  "not32 w = 4294967295 - w"

definition sha1_f :: "nat \<Rightarrow> nat \<Rightarrow> nat \<Rightarrow> nat \<Rightarrow> nat" where
  "sha1_f t b c d =
     (if t < 20 then (b AND c) OR (not32 b AND d)
      else if t < 40 then b XOR c XOR d
      else if t < 60 then (b AND c) OR (b AND d) OR (c AND d)
      else b XOR c XOR d)"

definition sha1_k :: "nat \<Rightarrow> nat" where
  "sha1_k t =
     (if t < 20 then 0x5A827999 else if t < 40 then 0x6ED9EBA1
      else if t < 60 then 0x8F1BBCDC else 0xCA62C1D6)"

fun sha1_step :: "nat \<Rightarrow> nat \<Rightarrow> sha1_state \<Rightarrow> sha1_state" where
  "sha1_step t w (a, b, c, d, e) =
     (add32 (add32 (add32 (add32 (rotl 5 a) (sha1_f t b c d)) e) (sha1_k t)) w,
      a, rotl 30 b, c, d)"

function sha1_rounds :: "nat \<Rightarrow> nat list \<Rightarrow> sha1_state \<Rightarrow> sha1_state" where
  \<comment> \<open>rounds \<open>t\<close> to 79; \<open>ws\<close> holds the schedule words \<open>W(t)\<close> to \<open>W(t+15)\<close>\<close>
  "sha1_rounds t ws s =
     (if t < 80
      then sha1_rounds (t + 1) (tl ws @ [rotl 1 (ws ! 13 XOR ws ! 8 XOR ws ! 2 XOR ws ! 0)])
             (sha1_step t (ws ! 0) s)
      else s)"
  by pat_completeness auto
termination
  by (relation "measure (\<lambda>(t, ws, s). 80 - t)") auto

declare sha1_rounds.simps [simp del]

fun be32 :: "byte list \<Rightarrow> nat list" where
  \<comment> \<open>the big-endian words of a byte sequence\<close>
  "be32 (a # b # c # d # r) =
     (unat a * 16777216 + unat b * 65536 + unat c * 256 + unat d) # be32 r"
| "be32 r = []"

fun sha1_add :: "sha1_state \<Rightarrow> sha1_state \<Rightarrow> sha1_state" where
  "sha1_add (h0, h1, h2, h3, h4) (a, b, c, d, e) =
     (add32 h0 a, add32 h1 b, add32 h2 c, add32 h3 d, add32 h4 e)"

definition sha1_block :: "sha1_state \<Rightarrow> byte list \<Rightarrow> sha1_state" where
  "sha1_block h blk = sha1_add h (sha1_rounds 0 (be32 blk) h)"

function sha1_blocks :: "sha1_state \<Rightarrow> byte list \<Rightarrow> sha1_state" where
  "sha1_blocks h m =
     (if length m < 64 then h else sha1_blocks (sha1_block h (take 64 m)) (drop 64 m))"
  by pat_completeness auto
termination
  by (relation "measure (\<lambda>(h, m). length m)") auto

declare sha1_blocks.simps [simp del]

definition bytes_of32 :: "nat \<Rightarrow> byte list" where
  "bytes_of32 w =
     [of_nat (w div 16777216), of_nat (w div 65536 mod 256), of_nat (w div 256 mod 256),
      of_nat (w mod 256)]"

definition sha1_pad :: "byte list \<Rightarrow> byte list" where
  \<comment> \<open>the bit 1, zeros up to 56 modulo 64 bytes, and the length in bits as 8 bytes\<close>
  "sha1_pad m =
     m @ [0x80] @ replicate ((119 - length m mod 64) mod 64) 0 @
     bytes_of32 (8 * length m div 4294967296 mod 4294967296) @
     bytes_of32 (8 * length m mod 4294967296)"

definition sha1_init :: sha1_state where
  "sha1_init = (0x67452301, 0xEFCDAB89, 0x98BADCFE, 0x10325476, 0xC3D2E1F0)"

fun sha1_out :: "sha1_state \<Rightarrow> byte list" where
  "sha1_out (a, b, c, d, e) =
     bytes_of32 a @ bytes_of32 b @ bytes_of32 c @ bytes_of32 d @ bytes_of32 e"

definition SHA1 :: "byte list \<Rightarrow> byte list" where
  "SHA1 m = sha1_out (sha1_blocks sha1_init (sha1_pad m))"

lift_definition SHA1_Sum :: "byte list \<Rightarrow> digest" is SHA1
proof -
  fix m
  show "length (SHA1 m) = Size"
    by (cases "sha1_blocks sha1_init (sha1_pad m)") (simp add: SHA1_def Size_def bytes_of32_def)
qed

text \<open>
  The JavaScript library hashes a string through its UTF-8 encoding and an array
  through its elements taken as bytes.
\<close>

definition utf8_unit :: "nat \<Rightarrow> byte list" where
  "utf8_unit n =
     (if n < 128 then [of_nat n]
      else if n < 2048 then [of_nat (192 + n div 64), of_nat (128 + n mod 64)]
      else [of_nat (224 + n div 4096), of_nat (128 + n div 64 mod 64), of_nat (128 + n mod 64)])"

definition utf8_pair :: "nat \<Rightarrow> nat \<Rightarrow> byte list" where
  \<comment> \<open>a high and a low surrogate: one code point above \<open>0xFFFF\<close>\<close>
  "utf8_pair hi lo =
     (let cp = 65536 + (hi - 55296) * 1024 + (lo - 56320)
      in [of_nat (240 + cp div 262144), of_nat (128 + cp div 4096 mod 64),
          of_nat (128 + cp div 64 mod 64), of_nat (128 + cp mod 64)])"

fun utf8 :: "jsstring \<Rightarrow> byte list" where
  "utf8 [] = []"
| "utf8 [c] = utf8_unit (unat c)"
| "utf8 (c # d # cs) =
     (if 55296 \<le> unat c \<and> unat c < 56320 \<and> 56320 \<le> unat d \<and> unat d < 57344
      then utf8_pair (unat c) (unat d) @ utf8 cs
      else utf8_unit (unat c) @ utf8 (d # cs))"

fun byte_of_number :: "number \<Rightarrow> byte" where
  "byte_of_number (Num n) = of_nat n"
| "byte_of_number NaN = 0"

fun sha1_message :: "sha1_input \<Rightarrow> byte list" where
  "sha1_message (JString s) = utf8 s"
| "sha1_message (JArray a) = map byte_of_number a"

lift_definition SHA1_digest :: "sha1_input \<Rightarrow> digest" is "\<lambda>x. SHA1 (sha1_message x)"
proof -
  fix x
  show "length (SHA1 (sha1_message x)) = Size"
    by (cases "sha1_blocks sha1_init (sha1_pad (sha1_message x))")
      (simp add: SHA1_def Size_def bytes_of32_def)
qed

section \<open>The loops of the Go code\<close>

lemma length_HMAC_key: "length (HMAC_key key) = BlockSize"
  by (simp add: HMAC_key_def make_def)

lemma length_bytes_of: "length (bytes_of d) = Size"
  using bytes_of [of d] by simp

lemma HMAC_pads_from:
  "n \<le> BlockSize \<Longrightarrow>
     HMAC_pads (replicate n 0x5C) (replicate n 0x36) = (replicate BlockSize 0x5C, replicate BlockSize 0x36)"
proof (induction "BlockSize - n" arbitrary: n)
  case 0
  then have "n = BlockSize" by simp
  then show ?case by (simp add: HMAC_pads.simps)
next
  case (Suc d)
  then have less: "n < BlockSize" and le: "Suc n \<le> BlockSize" and d: "d = BlockSize - Suc n"
    by simp_all
  have "HMAC_pads (replicate n 0x5C) (replicate n 0x36) =
        HMAC_pads (replicate (Suc n) 0x5C) (replicate (Suc n) 0x36)"
    using less by (subst HMAC_pads.simps) (simp add: replicate_append_same)
  also have "\<dots> = (replicate BlockSize 0x5C, replicate BlockSize 0x36)"
    using Suc.hyps(1) [OF d le] .
  finally show ?case .
qed

lemma HMAC_pads_empty:
  "HMAC_pads [] [] = (replicate BlockSize 0x5C, replicate BlockSize 0x36)"
  using HMAC_pads_from [of 0] by simp

lemma HMAC_xor_from:
  "i \<le> BlockSize \<Longrightarrow> length xo = BlockSize \<Longrightarrow> length xi = BlockSize \<Longrightarrow>
     HMAC_xor i key opad ipad (xo, xi) =
       (take i xo @ map (\<lambda>j. key ! j XOR opad ! j) [i..<BlockSize],
        take i xi @ map (\<lambda>j. key ! j XOR ipad ! j) [i..<BlockSize])"
proof (induction "BlockSize - i" arbitrary: i xo xi)
  case 0
  then show ?case by (simp add: HMAC_xor.simps)
next
  case (Suc d)
  then have less: "i < BlockSize" and le: "Suc i \<le> BlockSize" and d: "d = BlockSize - Suc i"
    by simp_all
  let ?xo = "xo[i := key ! i XOR opad ! i]" and ?xi = "xi[i := key ! i XOR ipad ! i]"
  have "HMAC_xor i key opad ipad (xo, xi) = HMAC_xor (Suc i) key opad ipad (?xo, ?xi)"
    using less by (subst HMAC_xor.simps) simp
  also have "\<dots> =
       (take (Suc i) ?xo @ map (\<lambda>j. key ! j XOR opad ! j) [Suc i..<BlockSize],
        take (Suc i) ?xi @ map (\<lambda>j. key ! j XOR ipad ! j) [Suc i..<BlockSize])"
    using Suc.hyps(1) [OF d le, of ?xo ?xi] Suc.prems by simp
  also have "\<dots> =
       (take i xo @ map (\<lambda>j. key ! j XOR opad ! j) [i..<BlockSize],
        take i xi @ map (\<lambda>j. key ! j XOR ipad ! j) [i..<BlockSize])"
    using less Suc.prems by (simp add: take_Suc_conv_app_nth upt_conv_Cons)
  finally show ?case .
qed

lemma HMAC_xor_start:
  assumes "length key = BlockSize"
  shows "HMAC_xor 0 key (replicate BlockSize p) (replicate BlockSize q) (make BlockSize, make BlockSize) =
       (map (\<lambda>k. k XOR p) key, map (\<lambda>k. k XOR q) key)"
proof -
  have "map (\<lambda>j. key ! j XOR replicate BlockSize c ! j) [0..<BlockSize] = map (\<lambda>k. k XOR c) key" for c
    using assms by (intro nth_equalityI) simp_all
  then show ?thesis
    by (simp add: HMAC_xor_from make_def)
qed

lemma HMAC_eq:
  "HMAC sha1_Sum key message =
     bytes_of (sha1_Sum (bytes_of (sha1_Sum (map (\<lambda>k. k XOR 0x36) (HMAC_key key) @ message))))"
  by (simp add: HMAC_def HMAC_pads_empty HMAC_xor_start length_HMAC_key)

lemma HOTP_range_from:
  "i \<le> length code \<Longrightarrow>
     HOTP_range i code = take i code @ map (\<lambda>b. b mod 10) (drop i code)"
proof (induction "length code - i" arbitrary: i code)
  case 0
  then show ?case by (simp add: HOTP_range.simps)
next
  case (Suc d)
  then have less: "i < length code" by simp
  let ?code = "code[i := (code ! i) mod 10]"
  have "HOTP_range i code = HOTP_range (Suc i) ?code"
    using less by (subst HOTP_range.simps) simp
  also have "\<dots> = take (Suc i) ?code @ map (\<lambda>b. b mod 10) (drop (Suc i) ?code)"
    using Suc.hyps(1) [of ?code "Suc i"] Suc.hyps(2) less by simp
  also have "\<dots> = take i code @ map (\<lambda>b. b mod 10) (drop i code)"
    using less by (simp add: take_Suc_conv_app_nth Cons_nth_drop_Suc [symmetric])
  finally show ?case .
qed

lemma HOTP_range_eq: "HOTP_range 0 code = map (\<lambda>b. b mod 10) code"
  using HOTP_range_from [of 0 code] by simp

section \<open>The loops of the JavaScript code\<close>

lemma length_hmac_K: "length (hmac_K key) = blocksize"
  by (simp add: hmac_K_def)

lemma hmac_xor_from:
  "i \<le> length K \<Longrightarrow>
     hmac_xor i K opad ipad (xo, xi) =
       (xo @ map (\<lambda>j. K ! j XOR opad ! j) [i..<length K],
        xi @ map (\<lambda>j. K ! j XOR ipad ! j) [i..<length K])"
proof (induction "length K - i" arbitrary: i xo xi)
  case 0
  then show ?case by (simp add: hmac_xor.simps)
next
  case (Suc d)
  then have less: "i < length K" by simp
  have "hmac_xor i K opad ipad (xo, xi) =
        hmac_xor (Suc i) K opad ipad (xo @ [K ! i XOR opad ! i], xi @ [K ! i XOR ipad ! i])"
    using less by (subst hmac_xor.simps) simp
  also have "\<dots> =
       ((xo @ [K ! i XOR opad ! i]) @ map (\<lambda>j. K ! j XOR opad ! j) [Suc i..<length K],
        (xi @ [K ! i XOR ipad ! i]) @ map (\<lambda>j. K ! j XOR ipad ! j) [Suc i..<length K])"
    using Suc.hyps(1) [of "Suc i"] Suc.hyps(2) less by simp
  also have "\<dots> =
       (xo @ map (\<lambda>j. K ! j XOR opad ! j) [i..<length K],
        xi @ map (\<lambda>j. K ! j XOR ipad ! j) [i..<length K])"
    using less by (simp add: upt_conv_Cons)
  finally show ?case .
qed

lemma hmac_xor_start:
  assumes "length K = blocksize"
  shows "hmac_xor 0 K (replicate blocksize p) (replicate blocksize q) ([], []) =
       (map (\<lambda>k. k XOR p) K, map (\<lambda>k. k XOR q) K)"
proof -
  have "map (\<lambda>j. K ! j XOR replicate blocksize c ! j) [0..<length K] = map (\<lambda>k. k XOR c) K" for c
    using assms by (intro nth_equalityI) simp_all
  then show ?thesis
    by (simp add: hmac_xor_from)
qed

lemma unat_hex_digit: "d < 16 \<Longrightarrow> unat (hex_digit d) = (if d < 10 then 48 + d else 87 + d)"
  by (simp add: hex_digit_def unat_of_nat)

lemma hex_value_hex_digit: "d < 16 \<Longrightarrow> hex_value (hex_digit d) = Some d"
  by (simp add: hex_value_def unat_hex_digit)

lemma parseInt16_hex_pair:
  "a < 16 \<Longrightarrow> b < 16 \<Longrightarrow> parseInt16 [hex_digit a, hex_digit b] = Num (16 * a + b)"
  by (simp add: parseInt16_def hex_value_hex_digit)

lemma parseInt16_byte:
  "parseInt16 [hex_digit (unat (b :: byte) div 16), hex_digit (unat b mod 16)] = Num (unat b)"
proof -
  have "unat b < 256" using unsigned_less [of b] by simp
  then have "unat b div 16 < 16" by simp
  then show ?thesis by (simp add: parseInt16_hex_pair)
qed

lemma hex_string_Cons:
  "hex_string (b # bs) = hex_digit (unat b div 16) # hex_digit (unat b mod 16) # hex_string bs"
  by (simp add: hex_string_def)

lemma hmac_bytes_hex_from:
  "hmac_bytes (length pre) (pre @ hex_string bs) acc = acc @ map (\<lambda>b. Num (unat b)) bs"
proof (induction bs arbitrary: pre acc)
  case Nil
  show ?case by (subst hmac_bytes.simps) (simp add: hex_string_def)
next
  case (Cons b bs)
  let ?h = "hex_digit (unat b div 16)" and ?l = "hex_digit (unat b mod 16)"
  let ?str = "pre @ hex_string (b # bs)"
  have str: "?str = (pre @ [?h, ?l]) @ hex_string bs"
    by (simp add: hex_string_Cons)
  have "hmac_bytes (length pre) ?str acc =
        hmac_bytes (length pre + 2) ?str (acc @ [parseInt16 [?h, ?l]])"
    by (subst hmac_bytes.simps) (simp add: Let_def nth_append hex_string_Cons)
  also have "\<dots> = hmac_bytes (length (pre @ [?h, ?l])) ((pre @ [?h, ?l]) @ hex_string bs)
       (acc @ [Num (unat b)])"
    by (simp only: str parseInt16_byte) simp
  also have "\<dots> = (acc @ [Num (unat b)]) @ map (\<lambda>b. Num (unat b)) bs"
    by (rule Cons.IH)
  finally show ?case by simp
qed

lemma hmac_bytes_hex: "hmac_bytes 0 (hex_string bs) [] = map (\<lambda>b. Num (unat b)) bs"
  using hmac_bytes_hex_from [of "[]" bs "[]"] by simp

lemma hmac_eq:
  "hmac sha1_digest key message =
     numbers (bytes_of (sha1_digest (JArray (numbers (bytes_of (sha1_digest
       (JString (map (\<lambda>k. k XOR 0x36) (hmac_K key) @ message))))))))"
  by (simp add: hmac_def hmac_xor_start length_hmac_K sha1_def hmac_bytes_hex numbers_def)

lemma hotp_loop_from:
  "int i \<le> n \<Longrightarrow>
     hotp_loop i n hv code =
       code @ concat (map (\<lambda>j. number_string (rem10 (if j < length hv then Some (hv ! j) else None)))
                        [i..<nat n])"
proof (induction "nat n - i" arbitrary: i code)
  case 0
  then have "i = nat n" by simp
  then show ?case using 0 by (subst hotp_loop.simps) simp
next
  case (Suc d)
  then have less: "int i < n" and less': "i < nat n" by simp_all
  let ?s = "number_string (rem10 (if i < length hv then Some (hv ! i) else None))"
  have "hotp_loop i n hv code = hotp_loop (Suc i) n hv (code @ ?s)"
    using less by (subst hotp_loop.simps) simp
  also have "\<dots> = (code @ ?s) @
      concat (map (\<lambda>j. number_string (rem10 (if j < length hv then Some (hv ! j) else None)))
                [Suc i..<nat n])"
    using Suc.hyps(1) [of "Suc i"] Suc.hyps(2) less by simp
  finally show ?case using less' by (simp add: upt_conv_Cons)
qed


section \<open>What the functions compute\<close>

lemma decimal_digit: "n < 10 \<Longrightarrow> decimal n = [48 + n]"
  by (subst decimal.simps) simp

lemma decimal_step: "10 \<le> n \<Longrightarrow> decimal n = decimal (n div 10) @ [48 + n mod 10]"
  by (subst decimal.simps) simp

lemma decimal_digits: "list_all (\<lambda>d. 48 \<le> d \<and> d \<le> 57) (decimal n)"
proof (induction n rule: decimal.induct)
  case (1 n)
  show ?case
  proof (cases "n < 10")
    case True
    then show ?thesis by (simp add: decimal_digit)
  next
    case False
    with 1 show ?thesis by (simp add: decimal_step)
  qed
qed

lemma decimal_value: "foldl (\<lambda>a d. 10 * a + (d - 48)) 0 (decimal n) = n"
proof (induction n rule: decimal.induct)
  case (1 n)
  show ?case
  proof (cases "n < 10")
    case True
    then show ?thesis by (simp add: decimal_digit)
  next
    case False
    with 1 show ?thesis by (simp add: decimal_step)
  qed
qed

lemma HOTP_eq:
  "HOTP sha1_Sum key counter = Inr (map (\<lambda>b. b mod 10) (take 6 (HMAC sha1_Sum key counter)))"
  by (simp add: HOTP_def HOTP_len_def codeLen_def slice_to_def HMAC_eq length_bytes_of Size_def
      HOTP_range_eq take_map)

lemma floor_div_30: "\<lfloor>real_of_int t / 30\<rfloor> = t div 30"
  using floor_divide_of_int_eq [of t 30, where ?'a = real] by simp

lemma length_hmac: "length (hmac sha1_digest key message) = Size"
  by (simp add: hmac_eq numbers_def length_bytes_of)

lemma length_HMAC: "length (HMAC sha1_Sum key message) = Size"
  by (simp add: HMAC_eq length_bytes_of)

lemma hotp_eq:
  "hotp sha1_digest key counter =
     concat (map (\<lambda>x. number_string (rem10 (Some x))) (take 6 (hmac sha1_digest key counter)))"
proof -
  let ?h = "hmac sha1_digest key counter"
  let ?f = "\<lambda>x. number_string (rem10 x)"
  have len: "length (take 6 ?h) = 6"
    by (simp add: length_hmac Size_def)
  have "map (\<lambda>j. ?f (if j < length (take 6 ?h) then Some (take 6 ?h ! j) else None)) [0..<6] =
        map (\<lambda>x. ?f (Some x)) (take 6 ?h)"
    using len by (intro nth_equalityI) simp_all
  then show ?thesis
    by (simp add: hotp_def hotp_len_def codeLen_def slice0_def hotp_loop_from)
qed

lemma decimal_mod_10: "decimal (n mod 10) = [48 + n mod 10]"
  by (rule decimal_digit) simp

lemma hotp_digits:
  "hotp sha1_digest key counter =
     map (\<lambda>b. of_nat (48 + unat b mod 10))
       (take 6 (bytes_of (sha1_digest (JArray (numbers (bytes_of (sha1_digest
          (JString (map (\<lambda>k. k XOR 0x36) (hmac_K key) @ counter)))))))))"
  by (simp add: hotp_eq hmac_eq numbers_def take_map comp_def decimal_mod_10)

lemma totp_TC_eq: "totp_TC ms = ms div 30000"
proof -
  have "real_of_int ms / 1000 / 30 = real_of_int ms / real_of_int 30000" by simp
  then show ?thesis
    unfolding totp_TC_def by (simp only: floor_divide_of_int_eq)
qed

lemma TOTP_nonneg:
  "0 \<le> now \<Longrightarrow> TOTP sha1_Sum now key = HOTP sha1_Sum key (FormatInt (now div 30))"
  by (simp add: TOTP_def TOTP_counter_def signed_divide_int_def sgn_if)

section \<open>The code on SHA-1, at concrete keys and messages\<close>

text \<open>
  A message of less than 56 bytes is hashed in one block, and one block followed by less
  than 56 bytes in two; each block is evaluated once.  The first lemma checks the model of
  SHA-1 against the test vector \<open>abc\<close> of the standard.
\<close>

lemma replicate_unfold: "replicate (numeral n) b = b # replicate (pred_numeral n) b"
  by (simp add: numeral_eq_Suc)

lemmas sha1_block_eval = sha1_block_def sha1_init_def
  sha1_rounds.simps sha1_f_def sha1_k_def rotl_def add32_def not32_def bytes_of32_def
  replicate_unfold

lemma sha1_blocks_short: "length m < 64 \<Longrightarrow> sha1_blocks h m = h"
  by (subst sha1_blocks.simps) simp

lemma sha1_blocks_append:
  "length blk = 64 \<Longrightarrow> sha1_blocks h (blk @ rest) = sha1_blocks (sha1_block h blk) rest"
  by (subst sha1_blocks.simps) simp

lemma sha1_pad_zeros:
  fixes l :: nat
  assumes "l < 56"
  shows "(119 - l) mod 64 = 55 - l"
proof -
  have "119 - l = 64 + (55 - l)"
    using assms by simp
  then show ?thesis
    by (simp only: mod_add_self1) simp
qed

lemma sha1_pad_short:
  assumes "length m < 120"
  shows "sha1_pad m =
     m @ [0x80] @ replicate ((119 - length m mod 64) mod 64) 0 @ bytes_of32 0 @ bytes_of32 (8 * length m)"
proof -
  have "8 * length m < 4294967296" using assms by simp
  then have "8 * length m div 4294967296 = 0" and "8 * length m mod 4294967296 = 8 * length m"
    by simp_all
  then show ?thesis
    by (simp only: sha1_pad_def mod_0)
qed

lemma length_sha1_block_tail:
  "length m < 56 \<Longrightarrow>
     length (m @ [0x80] @ replicate (55 - length m) 0 @ bytes_of32 0 @ bytes_of32 n) = 64"
  by (simp add: bytes_of32_def)

lemma SHA1_one_block:
  assumes "length m < 56"
  shows "SHA1 m = sha1_out (sha1_block sha1_init
           (m @ [0x80] @ replicate (55 - length m) 0 @ bytes_of32 0 @ bytes_of32 (8 * length m)))"
proof -
  let ?blk = "m @ [0x80] @ replicate (55 - length m) 0 @ bytes_of32 0 @ bytes_of32 (8 * length m)"
  have pad: "sha1_pad m = ?blk @ []"
    using assms by (simp add: sha1_pad_short sha1_pad_zeros)
  show ?thesis
    unfolding SHA1_def pad sha1_blocks_append [OF length_sha1_block_tail [OF assms]]
    by (simp add: sha1_blocks_short)
qed

lemma SHA1_two_blocks:
  assumes "length blk = 64" and "length m < 56"
  shows "SHA1 (blk @ m) = sha1_out (sha1_block (sha1_block sha1_init blk)
           (m @ [0x80] @ replicate (55 - length m) 0 @ bytes_of32 0 @ bytes_of32 (512 + 8 * length m)))"
proof -
  let ?blk = "m @ [0x80] @ replicate (55 - length m) 0 @ bytes_of32 0 @ bytes_of32 (512 + 8 * length m)"
  have "(119 - length (blk @ m) mod 64) mod 64 = 55 - length m"
    using assms by (simp add: sha1_pad_zeros)
  then have pad: "sha1_pad (blk @ m) = blk @ ?blk @ []"
    using assms by (simp add: sha1_pad_short)
  show ?thesis
    unfolding SHA1_def pad sha1_blocks_append [OF assms(1)]
      sha1_blocks_append [OF length_sha1_block_tail [OF assms(2)]]
    by (simp add: sha1_blocks_short)
qed

lemma sha1_ipad_block:
  "sha1_block sha1_init (replicate 64 0x36) =
     (3388456279, 1645991739, 3926911697, 1101373746, 1313814045)"
  by (simp add: sha1_block_eval)

lemma sha1_opad_block:
  "sha1_block sha1_init (replicate 64 0x5C) =
     (2542412964, 1893397715, 333561480, 947659313, 1951813997)"
  by (simp add: sha1_block_eval)

lemma SHA1_ipad:
  "SHA1 (replicate 64 0x36) =
     [0x56, 0xF3, 0x66, 0x54, 0x34, 0xEC, 0x84, 0x58, 0x3E, 0x43,
      0x5E, 0x8E, 0x8E, 0xA6, 0xCB, 0x39, 0x36, 0x16, 0x1B, 0x60]"
  using SHA1_two_blocks [of "replicate 64 0x36" "[]"]
  by (simp add: sha1_ipad_block) (simp add: sha1_block_eval)

lemma SHA1_abc:
  "SHA1 [0x61, 0x62, 0x63] =
     [0xA9, 0x99, 0x3E, 0x36, 0x47, 0x06, 0x81, 0x6A, 0xBA, 0x3E,
      0x25, 0x71, 0x78, 0x50, 0xC2, 0x6C, 0x9C, 0xD0, 0xD8, 0x9D]"
  by (subst SHA1_one_block) (simp_all add: sha1_block_eval)

lemma SHA1_ipad_0:
  "SHA1 (replicate 64 0x36 @ [0x30]) =
     [0xCA, 0x65, 0x70, 0xF4, 0x07, 0x76, 0x79, 0x1E, 0xC1, 0x12,
      0xAA, 0x68, 0xD0, 0x0C, 0x9F, 0xDE, 0x1C, 0xA1, 0xEE, 0xF0]"
  using SHA1_two_blocks [of "replicate 64 0x36" "[0x30]"]
  by (simp add: sha1_ipad_block) (simp add: sha1_block_eval)

lemma SHA1_ipad_minus_1:
  "SHA1 (replicate 64 0x36 @ [0x2D, 0x31]) =
     [0x4A, 0x62, 0x1E, 0xCA, 0xCF, 0xE1, 0x86, 0xCC, 0x54, 0x2A,
      0x13, 0x86, 0xA8, 0xC5, 0x86, 0x3A, 0x95, 0xBC, 0xA9, 0x1C]"
  using SHA1_two_blocks [of "replicate 64 0x36" "[0x2D, 0x31]"]
  by (simp add: sha1_ipad_block) (simp add: sha1_block_eval)

lemma SHA1_inner:
  "SHA1 [0x56, 0xF3, 0x66, 0x54, 0x34, 0xEC, 0x84, 0x58, 0x3E, 0x43,
         0x5E, 0x8E, 0x8E, 0xA6, 0xCB, 0x39, 0x36, 0x16, 0x1B, 0x60] =
     [0x74, 0x08, 0x94, 0x57, 0x4A, 0x4F, 0x0B, 0x9D, 0xEC, 0xBE,
      0x0A, 0x75, 0xF2, 0x72, 0x87, 0x9D, 0x5B, 0xD3, 0x68, 0x0C]"
  by (subst SHA1_one_block) (simp_all add: sha1_block_eval)

lemma SHA1_inner_0:
  "SHA1 [0xCA, 0x65, 0x70, 0xF4, 0x07, 0x76, 0x79, 0x1E, 0xC1, 0x12,
         0xAA, 0x68, 0xD0, 0x0C, 0x9F, 0xDE, 0x1C, 0xA1, 0xEE, 0xF0] =
     [0xA2, 0xDB, 0xF4, 0x53, 0xE8, 0x7F, 0x4B, 0xA0, 0xDC, 0xCA,
      0x12, 0xC1, 0x05, 0xF5, 0x99, 0x3C, 0x7F, 0x90, 0xBC, 0x08]"
  by (subst SHA1_one_block) (simp_all add: sha1_block_eval)

lemma SHA1_inner_minus_1:
  "SHA1 [0x4A, 0x62, 0x1E, 0xCA, 0xCF, 0xE1, 0x86, 0xCC, 0x54, 0x2A,
         0x13, 0x86, 0xA8, 0xC5, 0x86, 0x3A, 0x95, 0xBC, 0xA9, 0x1C] =
     [0xA5, 0x29, 0x24, 0x50, 0x12, 0x8F, 0xEC, 0x52, 0x4B, 0x59,
      0xB8, 0x79, 0xA1, 0xAC, 0xEB, 0x8D, 0x6D, 0x32, 0x03, 0x1F]"
  by (subst SHA1_one_block) (simp_all add: sha1_block_eval)

lemma SHA1_opad_inner:
  "SHA1 (replicate 64 0x5C @
        [0x56, 0xF3, 0x66, 0x54, 0x34, 0xEC, 0x84, 0x58, 0x3E, 0x43,
         0x5E, 0x8E, 0x8E, 0xA6, 0xCB, 0x39, 0x36, 0x16, 0x1B, 0x60]) =
     [0xFB, 0xDB, 0x1D, 0x1B, 0x18, 0xAA, 0x6C, 0x08, 0x32, 0x4B,
      0x7D, 0x64, 0xB7, 0x1F, 0xB7, 0x63, 0x70, 0x69, 0x0E, 0x1D]"
  by (subst SHA1_two_blocks) (simp_all add: sha1_opad_block, simp add: sha1_block_eval)

lemma HMAC_key_empty: "HMAC_key [] = replicate 64 0"
  by (simp add: HMAC_key_def BlockSize_def make_def)

lemma HMAC_SHA1_empty_key:
  "HMAC SHA1_Sum [] message = SHA1 (SHA1 (replicate 64 0x36 @ message))"
  by (simp add: HMAC_eq SHA1_Sum.rep_eq HMAC_key_empty)

lemma HMAC_SHA1_empty:
  "HMAC SHA1_Sum [] [] =
     [0x74, 0x08, 0x94, 0x57, 0x4A, 0x4F, 0x0B, 0x9D, 0xEC, 0xBE,
      0x0A, 0x75, 0xF2, 0x72, 0x87, 0x9D, 0x5B, 0xD3, 0x68, 0x0C]"
  using SHA1_ipad SHA1_inner by (simp add: HMAC_SHA1_empty_key)

lemma two_pass_HMAC_SHA1_empty:
  "two_pass_HMAC SHA1_Sum [] [] =
     [0xFB, 0xDB, 0x1D, 0x1B, 0x18, 0xAA, 0x6C, 0x08, 0x32, 0x4B,
      0x7D, 0x64, 0xB7, 0x1F, 0xB7, 0x63, 0x70, 0x69, 0x0E, 0x1D]"
proof -
  have "map2 (XOR) (replicate 64 (0 :: byte)) (replicate 64 c) = replicate 64 c" for c
    by (simp add: zip_replicate)
  then show ?thesis
    using SHA1_ipad SHA1_opad_inner
    by (simp add: two_pass_HMAC_def HMAC_key_empty BlockSize_def SHA1_Sum.rep_eq)
qed

lemma HOTP_SHA1_0: "HOTP SHA1_Sum [] [0x30] = Inr [2, 9, 4, 3, 2, 7]"
  using SHA1_ipad_0 SHA1_inner_0 by (simp add: HOTP_eq HMAC_SHA1_empty_key)

lemma HOTP_SHA1_minus_1: "HOTP SHA1_Sum [] [0x2D, 0x31] = Inr [5, 1, 6, 0, 8, 3]"
  using SHA1_ipad_minus_1 SHA1_inner_minus_1 by (simp add: HOTP_eq HMAC_SHA1_empty_key)

lemma FormatInt_0: "FormatInt 0 = [0x30]"
  by (simp add: FormatInt_def decimal_int_def decimal_digit)

lemma FormatInt_minus_1: "FormatInt (- 1) = [0x2D, 0x31]"
  by (simp add: FormatInt_def decimal_int_def decimal_digit)

lemma TOTP_before_epoch:
  "TOTP SHA1_Sum (- 1) [] = Inr [2, 9, 4, 3, 2, 7]"
  "TOTP SHA1_Sum (- 30) [] = Inr [5, 1, 6, 0, 8, 3]"
  by (simp_all add: TOTP_def TOTP_counter_def signed_divide_int_def FormatInt_0 FormatInt_minus_1
      HOTP_SHA1_0 HOTP_SHA1_minus_1)

lemma utf8_ascii: "list_all (\<lambda>c. unat c < 128) s \<Longrightarrow> utf8 s = map ucast s"
proof (induction s rule: utf8.induct)
  case 1
  show ?case by simp
next
  case (2 c)
  then show ?case by (simp add: utf8_unit_def)
next
  case (3 c d cs)
  then show ?case by (simp add: utf8_unit_def)
qed

lemma bytes_of_numbers: "map byte_of_number (numbers bs) = bs"
  by (simp add: numbers_def comp_def)

lemma hmac_K_empty: "hmac_K [] = replicate 64 0"
  by (simp add: hmac_K_def blocksize_def)

lemma hmac_SHA1_empty_key:
  assumes "list_all (\<lambda>c. unat c < 128) message"
  shows "hmac SHA1_digest [] message =
     numbers (SHA1 (SHA1 (replicate 64 0x36 @ map ucast message)))"
proof -
  have "list_all (\<lambda>c. unat c < 128) (replicate 64 (0x36 :: jschar) @ message)"
    using assms by (simp add: list_all_iff)
  then have "utf8 (replicate 64 0x36 @ message) = replicate 64 0x36 @ map ucast message"
    by (simp add: utf8_ascii)
  then show ?thesis
    by (simp add: hmac_eq SHA1_digest.rep_eq hmac_K_empty bytes_of_numbers)
qed

lemma hmac_SHA1_empty:
  "hmac SHA1_digest [] [] =
     numbers [0x74, 0x08, 0x94, 0x57, 0x4A, 0x4F, 0x0B, 0x9D, 0xEC, 0xBE,
              0x0A, 0x75, 0xF2, 0x72, 0x87, 0x9D, 0x5B, 0xD3, 0x68, 0x0C]"
  using SHA1_ipad SHA1_inner by (simp add: hmac_SHA1_empty_key)

lemma js_0: "js ''0'' = [0x30]"
  by (simp add: js_def)

lemma hotp_SHA1_0: "hotp SHA1_digest [] (js ''0'') = js ''294327''"
proof -
  have "hmac SHA1_digest [] [0x30] =
      numbers [0xA2, 0xDB, 0xF4, 0x53, 0xE8, 0x7F, 0x4B, 0xA0, 0xDC, 0xCA,
               0x12, 0xC1, 0x05, 0xF5, 0x99, 0x3C, 0x7F, 0x90, 0xBC, 0x08]"
    using SHA1_ipad_0 SHA1_inner_0 by (simp add: hmac_SHA1_empty_key)
  then show ?thesis
    by (simp add: hotp_eq js_0 numbers_def decimal_digit) (simp add: js_def)
qed

lemma hotp_SHA1_empty: "hotp SHA1_digest [] [] = js ''688749''"
  using hmac_SHA1_empty
  by (simp add: hotp_eq numbers_def decimal_digit) (simp add: js_def)

lemma HOTP_SHA1_empty: "HOTP SHA1_Sum [] [] = Inr [6, 8, 8, 7, 4, 9]"
  using HMAC_SHA1_empty by (simp add: HOTP_eq)

section \<open>The claims\<close>

text \<open>
  In every statement below \<open>sha1_Sum\<close> and \<open>sha1_digest\<close> stand for an arbitrary hash
  with a 20-byte digest, \<open>key\<close>, \<open>message\<close> and \<open>counter\<close> are the arguments of the Go
  functions and \<open>k\<close>, \<open>m\<close> and \<open>c\<close> those of the JavaScript functions.  Closed
  statements run the code on SHA-1.
\<close>

subsection \<open>C1: the two-pass construction\<close>

text \<open>
  Claim C1 says that HMAC returns the outer digest \<open>Hash((K' XOR opad) || inner)\<close>.
  The code does not: for the empty key and the empty message the Go function returns
  \<open>74089457\<dots>\<close>, the digest of the inner digest alone, where the two-pass construction
  gives \<open>fbdb1d1b\<dots>\<close>, the HMAC-SHA1 value of the standard; the JavaScript function
  returns the same 20 numbers as the Go function.  The comments of both source files
  state the two-pass formula, and the Go file keeps the right call as a comment next to
  the wrong one.
\<close>

theorem HMAC_outer_pad_missing:
  "HMAC SHA1_Sum [] [] =
     [0x74, 0x08, 0x94, 0x57, 0x4A, 0x4F, 0x0B, 0x9D, 0xEC, 0xBE,
      0x0A, 0x75, 0xF2, 0x72, 0x87, 0x9D, 0x5B, 0xD3, 0x68, 0x0C] \<and>
   two_pass_HMAC SHA1_Sum [] [] =
     [0xFB, 0xDB, 0x1D, 0x1B, 0x18, 0xAA, 0x6C, 0x08, 0x32, 0x4B,
      0x7D, 0x64, 0xB7, 0x1F, 0xB7, 0x63, 0x70, 0x69, 0x0E, 0x1D] \<and>
   HMAC SHA1_Sum [] [] \<noteq> two_pass_HMAC SHA1_Sum [] [] \<and>
   hmac SHA1_digest [] [] =
     numbers [0x74, 0x08, 0x94, 0x57, 0x4A, 0x4F, 0x0B, 0x9D, 0xEC, 0xBE,
              0x0A, 0x75, 0xF2, 0x72, 0x87, 0x9D, 0x5B, 0xD3, 0x68, 0x0C]"
  by (simp add: HMAC_SHA1_empty two_pass_HMAC_SHA1_empty hmac_SHA1_empty)

subsection \<open>C2: the outer pad is not used\<close>

text \<open>
  Claim C2.  For every key and message the result of HMAC is
  \<open>Hash(Hash((K' XOR ipad) || message))\<close>: the buffer \<open>K' XOR opad\<close> that both loops
  fill does not reach the second hash, and two keys with the same \<open>K' XOR ipad\<close> give
  the same result.  In JavaScript the second hash is applied to the array of the inner
  digest's bytes.
\<close>

theorem HMAC_ignores_outer_pad:
  "HMAC sha1_Sum key message =
     bytes_of (sha1_Sum (bytes_of (sha1_Sum (map (\<lambda>b. b XOR 0x36) (HMAC_key key) @ message)))) \<and>
   (map (\<lambda>b. b XOR 0x36) (HMAC_key key) = map (\<lambda>b. b XOR 0x36) (HMAC_key key') \<longrightarrow>
      HMAC sha1_Sum key message = HMAC sha1_Sum key' message) \<and>
   hmac sha1_digest k m =
     numbers (bytes_of (sha1_digest (JArray (numbers (bytes_of (sha1_digest
       (JString (map (\<lambda>c. c XOR 0x36) (hmac_K k) @ m)))))))) \<and>
   (map (\<lambda>c. c XOR 0x36) (hmac_K k) = map (\<lambda>c. c XOR 0x36) (hmac_K k') \<longrightarrow>
      hmac sha1_digest k m = hmac sha1_digest k' m)"
  by (simp add: HMAC_eq hmac_eq)

theorem HMAC_ignores_outer_pad_witness:
  "map (\<lambda>b. b XOR 0x36) (HMAC_key []) = map (\<lambda>b. b XOR 0x36) (HMAC_key [0]) \<and>
   HMAC SHA1_Sum [] [1, 2] = HMAC SHA1_Sum [0] [1, 2] \<and>
   map (\<lambda>c. c XOR 0x36) (hmac_K []) = map (\<lambda>c. c XOR 0x36) (hmac_K [0]) \<and>
   hmac SHA1_digest [] [1, 2] = hmac SHA1_digest [0] [1, 2]"
proof -
  have go: "HMAC_key [] = HMAC_key [0]"
    by (simp add: HMAC_key_def BlockSize_def make_def flip: replicate_Suc)
  have js: "hmac_K [] = hmac_K [0]"
    by (simp add: hmac_K_def blocksize_def flip: replicate_Suc)
  note claim = HMAC_ignores_outer_pad [of SHA1_Sum "[]" "[1, 2]" "[0]" SHA1_digest "[]" "[1, 2]" "[0]"]
  have pre_go: "map (\<lambda>b. b XOR 0x36) (HMAC_key []) = map (\<lambda>b. b XOR 0x36) (HMAC_key [0])"
    using go by simp
  have pre_js: "map (\<lambda>c. c XOR 0x36) (hmac_K []) = map (\<lambda>c. c XOR 0x36) (hmac_K [0])"
    using js by simp
  from claim pre_go have "HMAC SHA1_Sum [] [1, 2] = HMAC SHA1_Sum [0] [1, 2]"
    by blast
  moreover from claim pre_js have "hmac SHA1_digest [] [1, 2] = hmac SHA1_digest [0] [1, 2]"
    by blast
  ultimately show ?thesis
    using pre_go pre_js by blast
qed

subsection \<open>C3: the digits of HOTP\<close>

text \<open>
  Claim C3.  HOTP computes the tag \<open>HMAC(key, counter)\<close>, takes its first 6 bytes,
  reduces each modulo 10 and returns the digits in order: as 6 bytes of value 0 to 9
  in Go, and as the text of those digits in JavaScript, where \<open>48 + d\<close> is the
  character of the digit \<open>d\<close>.
\<close>

theorem HOTP_first_digits:
  "HOTP sha1_Sum key counter =
     Inr (map (\<lambda>b. b mod 10) (take 6 (HMAC sha1_Sum key counter))) \<and>
   hotp sha1_digest k c =
     concat (map (\<lambda>x. number_string (rem10 (Some x))) (take 6 (hmac sha1_digest k c))) \<and>
   (\<exists>tag. hmac sha1_digest k c = numbers tag \<and>
      hotp sha1_digest k c = map (\<lambda>b. of_nat (48 + unat b mod 10)) (take 6 tag))"
proof (intro conjI)
  show "HOTP sha1_Sum key counter = Inr (map (\<lambda>b. b mod 10) (take 6 (HMAC sha1_Sum key counter)))"
    by (rule HOTP_eq)
  show "hotp sha1_digest k c =
      concat (map (\<lambda>x. number_string (rem10 (Some x))) (take 6 (hmac sha1_digest k c)))"
    by (rule hotp_eq)
  show "\<exists>tag. hmac sha1_digest k c = numbers tag \<and>
      hotp sha1_digest k c = map (\<lambda>b. of_nat (48 + unat b mod 10)) (take 6 tag)"
    using hmac_eq [of sha1_digest k c] hotp_digits [of sha1_digest k c] by blast
qed

subsection \<open>C4: six decimal digits\<close>

text \<open>
  Claim C4 says that HOTP returns a string of 6 characters between \<open>0\<close> and \<open>9\<close>.
  The Go function returns the digits themselves, bytes of value 0 to 9, which are not
  the characters \<open>0\<close> to \<open>9\<close> (the bytes 48 to 57): for the empty key and the counter
  \<open>0\<close> it returns the bytes 2, 9, 4, 3, 2, 7.
\<close>

theorem HOTP_returns_digit_values:
  "HOTP SHA1_Sum [] [0x30] = Inr [2, 9, 4, 3, 2, 7] \<and>
   list_all (\<lambda>b. b < of_char CHR ''0'') [2, 9, 4, 3, 2, 7 :: byte] \<and>
   \<not> list_all (\<lambda>b. of_char CHR ''0'' \<le> b \<and> b \<le> of_char CHR ''9'') [2, 9, 4, 3, 2, 7 :: byte]"
  by (simp add: HOTP_SHA1_0)

text \<open>
  Claim C4, amended.  For every key and counter HOTP returns exactly 6 decimal digits,
  whatever the key and the counter hold: the JavaScript function a string of 6
  characters between \<open>0\<close> and \<open>9\<close>, the Go function, which never fails, 6 bytes of value
  0 to 9.
\<close>

theorem HOTP_six_decimal_digits:
  "(\<exists>code. HOTP sha1_Sum key counter = Inr code \<and> length code = 6 \<and>
      list_all (\<lambda>b. b < 10) code) \<and>
   length (hotp sha1_digest k c) = 6 \<and>
   list_all (\<lambda>ch. of_char CHR ''0'' \<le> ch \<and> ch \<le> of_char CHR ''9'') (hotp sha1_digest k c)"
proof -
  have go: "(b :: byte) mod 10 < 10" for b
    by (rule word_mod_less_divisor) simp
  have js: "(48 :: jschar) \<le> of_nat (48 + n mod 10) \<and> (of_nat (48 + n mod 10) :: jschar) \<le> 57"
    for n :: nat
  proof -
    have "n mod 10 < 10" by simp
    then have u: "unat (of_nat (48 + n mod 10) :: jschar) = 48 + n mod 10"
      by (intro of_nat_inverse [OF refl]) simp
    show ?thesis
      unfolding word_le_nat_alt u by simp
  qed
  show ?thesis
    using js by (simp add: HOTP_eq hotp_digits length_HMAC length_bytes_of Size_def list_all_iff go)
qed

theorem HOTP_six_decimal_digits_witness:
  "(\<exists>code. HOTP SHA1_Sum [] [0x30] = Inr code \<and> length code = 6) \<and>
   hotp SHA1_digest [] (js ''0'') = js ''294327'' \<and>
   length (hotp SHA1_digest [] (js ''0'')) = 6"
  using HOTP_six_decimal_digits [of SHA1_Sum "[]" "[0x30]" SHA1_digest "[]" "js ''0''"]
    hotp_SHA1_0
  by blast

subsection \<open>C5: the counter of TOTP\<close>

text \<open>
  Claim C5 says that TOTP uses the counter \<open>floor(time / 30)\<close> for every time reading.
  The Go function divides the integer \<open>time.Now().Unix()\<close> by 30, and Go's division
  truncates towards zero: one second before the epoch the counter is 0, not
  \<open>floor(-1 / 30) = -1\<close>, and the code returned is that of the counter \<open>0\<close>.
\<close>

theorem TOTP_before_epoch_truncates:
  "TOTP_counter (- 1) = 0 \<and> \<lfloor>real_of_int (- 1) / 30\<rfloor> = - 1 \<and>
   TOTP SHA1_Sum (- 1) [] = Inr [2, 9, 4, 3, 2, 7] \<and>
   HOTP SHA1_Sum [] (FormatInt \<lfloor>real_of_int (- 1) / 30\<rfloor>) = Inr [5, 1, 6, 0, 8, 3] \<and>
   TOTP SHA1_Sum (- 1) [] \<noteq> HOTP SHA1_Sum [] (FormatInt \<lfloor>real_of_int (- 1) / 30\<rfloor>)"
  by (simp only: floor_div_30)
    (simp add: TOTP_before_epoch TOTP_counter_def signed_divide_int_def
      FormatInt_minus_1 HOTP_SHA1_minus_1)

text \<open>
  Claim C5, amended.  For every key and every time reading at or after the epoch, the Go
  function TOTP returns \<open>HOTP(key, encode(floor(time / 30)))\<close>; the JavaScript function
  does so for every reading of its millisecond clock, with the time in seconds
  \<open>ms / 1000\<close>.  In both, \<open>encode\<close> writes the counter as the characters of its decimal
  digits (the codes 48 to 57, most significant first), not as 8 bytes.
\<close>

theorem TOTP_counter_decimal:
  "(0 \<le> now \<longrightarrow>
      TOTP sha1_Sum now key = HOTP sha1_Sum key (FormatInt \<lfloor>real_of_int now / 30\<rfloor>)) \<and>
   totp sha1_digest ms k = hotp sha1_digest k (toString \<lfloor>real_of_int ms / 1000 / 30\<rfloor>) \<and>
   (0 \<le> t \<longrightarrow>
      FormatInt t = map of_nat (decimal (nat t)) \<and> toString t = map of_nat (decimal (nat t))) \<and>
   list_all (\<lambda>d. 48 \<le> d \<and> d \<le> 57) (decimal n) \<and>
   foldl (\<lambda>a d. 10 * a + (d - 48)) 0 (decimal n) = n"
  by (simp add: TOTP_nonneg floor_div_30 totp_def totp_TC_def FormatInt_def toString_def
      decimal_int_def decimal_digits decimal_value)

theorem TOTP_counter_decimal_witness:
  "(0 :: int) \<le> 59 \<and> FormatInt \<lfloor>real_of_int 59 / 30\<rfloor> = [0x31] \<and>
   TOTP SHA1_Sum 59 [] = HOTP SHA1_Sum [] [0x31] \<and>
   (0 :: int) \<le> 1 \<and> FormatInt 1 = map of_nat (decimal (nat 1))"
proof -
  have "FormatInt \<lfloor>real_of_int 59 / 30\<rfloor> = [0x31]"
    by (simp add: floor_div_30 FormatInt_def decimal_int_def decimal_digit)
  then show ?thesis
    using TOTP_counter_decimal [of 59 SHA1_Sum "[]" _ _ _ 1] by simp
qed

subsection \<open>C6: no check of the number of digits\<close>

text \<open>
  Claim C6 says that HOTP fails with \<open>InvalidDigits\<close> when the requested number of
  digits is not positive or exceeds the digest length.  The functions have the two
  parameters key and counter only, and no \<open>InvalidDigits\<close> error exists in the code.
  A caller of the JavaScript function can still pass a number of digits as a third
  argument, as the specification's \<open>hotp(key, counter, digits)\<close> has it: the call
  \<open>hotp('', '', 0)\<close> and the call \<open>hotp('', '', 21)\<close> do not fail, they return the
  6-digit code \<open>688749\<close> of \<open>hotp('', '')\<close>.  (Go rejects a third argument when the
  program is compiled.)
\<close>

theorem hotp_ignores_requested_digits:
  "hotp_call SHA1_digest [] [] [Num 0] = js ''688749'' \<and>
   hotp_call SHA1_digest [] [] [Num 21] = js ''688749'' \<and>
   length (js ''688749'') = 6"
  by (simp add: hotp_call_def hotp_SHA1_empty) (simp add: js_def)

text \<open>
  Claim C6, amended.  HOTP takes no digits argument (the JavaScript function ignores
  one that is passed): its code length is the constant 6, which is positive and at most
  the digest length 20, no \<open>InvalidDigits\<close> failure exists, and every call succeeds with
  a code of that length, in Go and in JavaScript.
\<close>

theorem HOTP_always_succeeds:
  "0 < codeLen \<and> codeLen \<le> int Size \<and>
   (\<exists>code. HOTP sha1_Sum key counter = Inr code \<and> int (length code) = codeLen) \<and>
   int (length (hotp sha1_digest k c)) = codeLen \<and>
   hotp_call sha1_digest k c surplus = hotp sha1_digest k c"
  by (simp add: HOTP_eq hotp_digits length_HMAC length_bytes_of Size_def codeLen_def
      hotp_call_def)

subsection \<open>C7: an oversized key is cut, not hashed\<close>

text \<open>
  Claim C7.  A key longer than the block size of 64 bytes is replaced by its first 64
  bytes, without any hashing: the normalized key is \<open>take 64 key\<close>, and HMAC of the key
  is HMAC of that prefix.
\<close>

theorem oversized_key_truncated:
  "(BlockSize < length key \<longrightarrow>
      HMAC_key key = take BlockSize key \<and>
      HMAC sha1_Sum key message = HMAC sha1_Sum (take BlockSize key) message) \<and>
   (blocksize < length k \<longrightarrow>
      hmac_K k = take blocksize k \<and>
      hmac sha1_digest k m = hmac sha1_digest (take blocksize k) m)"
  by (simp add: HMAC_eq hmac_eq HMAC_key_def hmac_K_def)

theorem oversized_key_truncated_witness:
  "BlockSize < length (replicate 64 (1 :: byte) @ [2]) \<and>
   HMAC_key (replicate 64 1 @ [2]) = replicate 64 1 \<and>
   HMAC SHA1_Sum (replicate 64 1 @ [2]) [] = HMAC SHA1_Sum (replicate 64 1) [] \<and>
   blocksize < length (replicate 64 (1 :: jschar) @ [2]) \<and>
   hmac_K (replicate 64 1 @ [2]) = replicate 64 1 \<and>
   hmac SHA1_digest (replicate 64 1 @ [2]) [] = hmac SHA1_digest (replicate 64 1) []"
  using oversized_key_truncated
    [of "replicate 64 1 @ [2]" SHA1_Sum "[]" "replicate 64 1 @ [2]" SHA1_digest "[]"]
  by (simp add: BlockSize_def blocksize_def)

subsection \<open>C8: the length of the tag\<close>

text \<open>
  Claim C8.  For all keys and messages the result of HMAC has the length of the digest,
  20 bytes, whatever the lengths of the key and of the message.
\<close>

theorem HMAC_length:
  "length (HMAC sha1_Sum key message) = Size \<and> Size = 20 \<and>
   length (hmac sha1_digest k m) = Size"
  by (simp add: length_HMAC length_hmac Size_def)

subsection \<open>C9: key normalization is idempotent\<close>

text \<open>
  Claim C9.  Key normalization is idempotent: a key of exactly 64 bytes is returned
  unchanged, and normalizing an already normalized key gives the same bytes as
  normalizing once.  This holds for the Go code and for the JavaScript code.
\<close>

theorem key_normalization_idempotent:
  "(length key = BlockSize \<longrightarrow> HMAC_key key = key) \<and>
   HMAC_key (HMAC_key key') = HMAC_key key' \<and>
   (length k = blocksize \<longrightarrow> hmac_K k = k) \<and>
   hmac_K (hmac_K k') = hmac_K k'"
  by (simp add: HMAC_key_def hmac_K_def make_def)

theorem key_normalization_idempotent_witness:
  "length (replicate 64 (7 :: byte)) = BlockSize \<and>
   HMAC_key (replicate 64 7) = replicate 64 7 \<and>
   HMAC_key (HMAC_key [1, 2, 3]) = HMAC_key [1, 2, 3] \<and>
   length (replicate 64 (7 :: jschar)) = blocksize \<and>
   hmac_K (replicate 64 7) = replicate 64 7 \<and>
   hmac_K (hmac_K [1, 2, 3]) = hmac_K [1, 2, 3]"
  using key_normalization_idempotent
    [of "replicate 64 7" "[1, 2, 3]" "replicate 64 7" "[1, 2, 3]"]
  by (simp add: BlockSize_def blocksize_def)

subsection \<open>C10: one code per window\<close>

text \<open>
  Claim C10 says that two time readings in the same 30-second window, that is with the
  same \<open>floor(t / 30)\<close>, give the same code.  Before the epoch the Go function does not
  keep this: the readings \<open>-1\<close> and \<open>-30\<close> are in the window \<open>-1\<close>, and Go's truncating
  division makes their counters 0 and \<open>-1\<close>, with different codes.
\<close>

theorem TOTP_window_before_epoch:
  "\<lfloor>real_of_int (- 1) / 30\<rfloor> = \<lfloor>real_of_int (- 30) / 30\<rfloor> \<and>
   TOTP SHA1_Sum (- 1) [] = Inr [2, 9, 4, 3, 2, 7] \<and>
   TOTP SHA1_Sum (- 30) [] = Inr [5, 1, 6, 0, 8, 3] \<and>
   TOTP SHA1_Sum (- 1) [] \<noteq> TOTP SHA1_Sum (- 30) []"
  by (simp only: floor_div_30) (simp add: TOTP_before_epoch)

text \<open>
  Claim C10, amended.  For every key and any two time readings at or after the epoch
  with the same \<open>floor(t / 30)\<close>, the Go function TOTP returns the same code; the
  JavaScript function does so for any two readings of its millisecond clock with the
  same \<open>floor(ms / 1000 / 30)\<close>.
\<close>

theorem TOTP_same_window:
  "(0 \<le> t1 \<and> 0 \<le> t2 \<and> \<lfloor>real_of_int t1 / 30\<rfloor> = \<lfloor>real_of_int t2 / 30\<rfloor> \<longrightarrow>
      TOTP sha1_Sum t1 key = TOTP sha1_Sum t2 key) \<and>
   (\<lfloor>real_of_int ms1 / 1000 / 30\<rfloor> = \<lfloor>real_of_int ms2 / 1000 / 30\<rfloor> \<longrightarrow>
      totp sha1_digest ms1 k = totp sha1_digest ms2 k)"
  by (simp add: TOTP_nonneg floor_div_30 totp_def totp_TC_def)

theorem TOTP_same_window_witness:
  "(0 :: int) \<le> 30 \<and> (0 :: int) \<le> 59 \<and>
   \<lfloor>real_of_int 30 / 30\<rfloor> = \<lfloor>real_of_int 59 / 30\<rfloor> \<and>
   TOTP SHA1_Sum 30 [] = TOTP SHA1_Sum 59 [] \<and>
   \<lfloor>real_of_int 30000 / 1000 / 30\<rfloor> = \<lfloor>real_of_int 59999 / 1000 / 30\<rfloor> \<and>
   totp SHA1_digest 30000 [] = totp SHA1_digest 59999 []"
proof -
  have go: "\<lfloor>real_of_int 30 / 30\<rfloor> = \<lfloor>real_of_int 59 / 30\<rfloor>"
    by (simp add: floor_div_30)
  have js: "\<lfloor>real_of_int 30000 / 1000 / 30\<rfloor> = \<lfloor>real_of_int 59999 / 1000 / 30\<rfloor>"
    using totp_TC_eq [of 30000] totp_TC_eq [of 59999] by (simp add: totp_TC_def)
  show ?thesis
    using TOTP_same_window [of 30 59 SHA1_Sum "[]" 30000 59999 SHA1_digest "[]"] go js
    by simp
qed

end
